theory Spec2Isabelle
  imports Complex_Main "HOL-Library.Sublist"
begin

section \<open>The chart node of ros/src/tools/chart.py\<close>

text \<open>
  The node keeps four pieces of shared data (track waypoints, car pose, planned path,
  traffic lights), each written by a subscriber callback and read by the render loop.
  Every method of the class that touches a shared field does so between
  \<^verbatim>\<open>acquire\<close> and \<^verbatim>\<open>release\<close> of that field's lock, so a method
  body is one atomic step of the model. Coordinates are Python floats that are only copied,
  never computed with; they are modelled as \<^typ>\<open>real\<close>. \<^verbatim>\<open>copy.deepcopy\<close>
  is the identity on HOL values.
\<close>

subsection \<open>Data\<close>

text \<open>A waypoint of a Lane message: only \<^verbatim>\<open>pose.pose.position.x/y\<close> is read.\<close>

record waypoint =
  wp_x :: real
  wp_y :: real

text \<open>A PoseStamped message: only \<^verbatim>\<open>pose.position.x/y\<close> is read.\<close>

record pose_msg =
  pm_x :: real
  pm_y :: real

text \<open>An entry of a TrafficLightArray message: position and state.\<close>

record light =
  tl_pos_x :: real
  tl_pos_y :: real
  tl_state :: int

text \<open>The fields of \<^verbatim>\<open>self\<close> set up by \<^verbatim>\<open>__init__\<close> (lines 25-44).\<close>

record chart =
  waypoints :: "waypoint list"
  pose :: "(real \<times> real) option"
  is_pose_updated :: bool
  path :: "waypoint list"
  is_path_updated :: bool
  traffic_lights :: "(real \<times> real \<times> int) list option"
  subscriptions :: "string list"

definition init_chart :: chart where
  "init_chart = \<lparr> waypoints = [], pose = None, is_pose_updated = False,
                  path = [], is_path_updated = False, traffic_lights = None,
                  subscriptions = [''/base_waypoints''] \<rparr>"

datatype error = AssertionError | TypeError | IndexError | StopIteration

subsection \<open>Accessors (lines 48-84)\<close>

definition get_waypoints :: "chart \<Rightarrow> waypoint list" where
  "get_waypoints s = waypoints s"

definition pose_updated :: "chart \<Rightarrow> bool" where
  "pose_updated s = is_pose_updated s"

definition get_pose :: "chart \<Rightarrow> (real \<times> real) option \<times> chart" where
  "get_pose s = (pose s, s\<lparr> is_pose_updated := False \<rparr>)"

definition get_path :: "chart \<Rightarrow> waypoint list \<times> chart" where
  "get_path s = (path s, s\<lparr> is_path_updated := False \<rparr>)"

definition path_updated :: "chart \<Rightarrow> bool" where
  "path_updated s = is_path_updated s"

definition get_traffic_lights :: "chart \<Rightarrow> (real \<times> real \<times> int) list option" where
  "get_traffic_lights s = traffic_lights s"

subsection \<open>Subscriber callbacks (lines 158-188)\<close>

definition waypoints_cb :: "waypoint list \<Rightarrow> chart \<Rightarrow> error + chart" where
  "waypoints_cb msg s =
     (if length (waypoints s) \<noteq> 0 then Inl AssertionError
      else Inr (s\<lparr> waypoints := msg,
                   subscriptions := subscriptions s @
                     [''/current_pose'', ''/final_waypoints'', ''/vehicle/traffic_lights''] \<rparr>))"

definition pose_cb :: "pose_msg \<Rightarrow> chart \<Rightarrow> chart" where
  "pose_cb msg s = s\<lparr> pose := Some (pm_x msg, pm_y msg), is_pose_updated := True \<rparr>"

definition path_cb :: "waypoint list \<Rightarrow> chart \<Rightarrow> chart" where
  "path_cb msg s = s\<lparr> path := msg, is_path_updated := True \<rparr>"

text \<open>The loop of lines 186-187 appends one triple per light to a fresh list.\<close>

definition traffic_lights_cb :: "light list \<Rightarrow> chart \<Rightarrow> chart" where
  "traffic_lights_cb msg s =
     s\<lparr> traffic_lights :=
          Some (foldl (\<lambda>acc tl. acc @ [(tl_pos_x tl, tl_pos_y tl, tl_state tl)]) [] msg) \<rparr>"

subsection \<open>The consumer's take: check, then extract (lines 111-112, 121-122)\<close>

text \<open>
  The render loop calls \<^verbatim>\<open>pose_updated()\<close> and, when it answers True,
  \<^verbatim>\<open>get_pose()\<close>. With no producer step in between this is:
\<close>

definition take_pose :: "chart \<Rightarrow> (real \<times> real) option option \<times> chart" where
  "take_pose s =
     (if pose_updated s then (case get_pose s of (r, s') \<Rightarrow> (Some r, s')) else (None, s))"

subsection \<open>Producer and consumer interleaved\<close>

text \<open>
  The pose subscriber and the render loop run in different threads. Each of
  \<^verbatim>\<open>pose_cb\<close>, \<^verbatim>\<open>pose_updated\<close> and \<^verbatim>\<open>get_pose\<close> holds the pose
  lock for its whole body, so an execution is an interleaving of these three calls. An
  event is either the delivery of a pose message or the consumer's next call: the
  consumer is at the check of line 111 or, after a check that answered True, at the
  extraction of line 112. The run records the messages delivered so far and, for every
  extraction, its result together with the number of messages delivered before it.
\<close>

datatype event = Write pose_msg | Step

datatype pc = AtCheck | AtGet

record run_state =
  rs_chart :: chart
  rs_pc :: pc
  rs_written :: "pose_msg list"
  rs_obs :: "(nat \<times> (real \<times> real) option) list"

definition run_init :: run_state where
  "run_init = \<lparr> rs_chart = init_chart, rs_pc = AtCheck, rs_written = [], rs_obs = [] \<rparr>"

definition exec :: "event \<Rightarrow> run_state \<Rightarrow> run_state" where
  "exec e r =
     (case e of
        Write m \<Rightarrow> r\<lparr> rs_chart := pose_cb m (rs_chart r), rs_written := rs_written r @ [m] \<rparr>
      | Step \<Rightarrow>
          (case rs_pc r of
             AtCheck \<Rightarrow> r\<lparr> rs_pc := (if pose_updated (rs_chart r) then AtGet else AtCheck) \<rparr>
           | AtGet \<Rightarrow>
               (case get_pose (rs_chart r) of
                  (v, s') \<Rightarrow> r\<lparr> rs_chart := s', rs_pc := AtCheck,
                                 rs_obs := rs_obs r @ [(length (rs_written r), v)] \<rparr>)))"

definition run :: "event list \<Rightarrow> run_state" where
  "run evs = foldl (\<lambda>r e. exec e r) run_init evs"

text \<open>The value a pose message leaves in the store (lines 171-173).\<close>

definition stored :: "pose_msg \<Rightarrow> real \<times> real" where
  "stored m = (pm_x m, pm_y m)"

subsection \<open>Message delivery\<close>

datatype msg =
  TrackMsg "waypoint list"
| PoseMsg pose_msg
| PathMsg "waypoint list"
| SignalMsg "light list"

definition deliver :: "msg \<Rightarrow> chart \<Rightarrow> error + chart" where
  "deliver m s =
     (case m of
        TrackMsg wps \<Rightarrow> waypoints_cb wps s
      | PoseMsg p \<Rightarrow> Inr (pose_cb p s)
      | PathMsg wps \<Rightarrow> Inr (path_cb wps s)
      | SignalMsg ls \<Rightarrow> Inr (traffic_lights_cb ls s))"

text \<open>Deliveries one after the other; an exception of a callback ends the run.\<close>

fun deliver_all :: "msg list \<Rightarrow> chart \<Rightarrow> error + chart" where
  "deliver_all [] s = Inr s"
| "deliver_all (m # ms) s =
     (case deliver m s of Inl e \<Rightarrow> Inl e | Inr s' \<Rightarrow> deliver_all ms s')"

definition is_track :: "msg \<Rightarrow> bool" where
  "is_track m = (case m of TrackMsg _ \<Rightarrow> True | _ \<Rightarrow> False)"

text \<open>A message on one of the three topics subscribed by \<^verbatim>\<open>waypoints_cb\<close>.\<close>

definition is_update :: "msg \<Rightarrow> bool" where
  "is_update m = (\<not> is_track m)"

subsection \<open>Calls to the plotting library\<close>

text \<open>
  matplotlib is outside the node. A render tick is modelled by the list of calls it makes,
  in order. The artists are the objects the loop keeps in \<^verbatim>\<open>car_dot\<close>,
  \<^verbatim>\<open>path_line\<close> and \<^verbatim>\<open>tl_dots\<close>, and the track line of line 100. A
  scalar coordinate is passed as a one-element list; the \<^verbatim>\<open>linewidth\<close> argument
  of line 128 is not recorded.
\<close>

datatype artist = TrackLine | CarDot | PathLine | TlDots

datatype call =
  Plot artist "real list" "real list" string
| SetXData artist "real list"
| SetYData artist "real list"
| SetMarkerFaceColor artist char
| SetMarkerEdgeColor artist char
| Show
| CanvasDraw
| Pause
| RateSleep

subsection \<open>The render loop (lines 86-156)\<close>

text \<open>The local variables of \<^verbatim>\<open>loop\<close> that survive from one tick to the next.\<close>

record locals =
  first_iter :: bool
  first_path_iter :: bool
  update_chart :: bool
  first_tl_iter :: bool

text \<open>Lines 95-108: the first drawing of the track and the initial values of the flags.\<close>

definition loop_locals :: locals where
  "loop_locals = \<lparr> first_iter = True, first_path_iter = True, update_chart = True,
                   first_tl_iter = True \<rparr>"

definition loop_start :: "waypoint list \<Rightarrow> locals \<times> call list" where
  "loop_start wps = (loop_locals, [Plot TrackLine (map wp_x wps) (map wp_y wps) ''b'', Show])"

text \<open>
  Lines 111-119. Unpacking \<^verbatim>\<open>x, y = self.get_pose()\<close> raises TypeError when the
  stored pose is still None.
\<close>

definition update_pose :: "chart \<Rightarrow> locals \<Rightarrow> error + (chart \<times> locals \<times> call list)" where
  "update_pose s l =
     (if pose_updated s then
        (case get_pose s of
           (None, s') \<Rightarrow> Inl TypeError
         | (Some (x, y), s') \<Rightarrow>
             Inr (s', l\<lparr> first_iter := False, update_chart := True \<rparr>,
                  if first_iter l then [Plot CarDot [x] [y] ''ko'']
                  else [SetYData CarDot [y], SetXData CarDot [x]]))
      else Inr (s, l, []))"

text \<open>
  Lines 124-133. The plot or update of the path line and the assignment to
  \<^verbatim>\<open>update_chart\<close> sit inside the \<^verbatim>\<open>for\<close> loop, so they run once per
  waypoint of the path, with the coordinate lists as long as they are at that point.
\<close>

fun path_loop ::
  "waypoint list \<Rightarrow> real list \<times> real list \<Rightarrow> locals \<Rightarrow> call list \<Rightarrow> locals \<times> call list" where
  "path_loop [] acc l cs = (l, cs)"
| "path_loop (wp # wps) (path_wp_x, path_wp_y) l cs =
     path_loop wps (path_wp_x @ [wp_x wp], path_wp_y @ [wp_y wp])
       (l\<lparr> first_path_iter := False, update_chart := True \<rparr>)
       (cs @ (if first_path_iter l
              then [Plot PathLine (path_wp_x @ [wp_x wp]) (path_wp_y @ [wp_y wp]) ''m'']
              else [SetYData PathLine (path_wp_y @ [wp_y wp]),
                    SetXData PathLine (path_wp_x @ [wp_x wp])]))"

definition update_path :: "chart \<Rightarrow> locals \<Rightarrow> chart \<times> locals \<times> call list" where
  "update_path s l =
     (if path_updated s then
        (case get_path s of
           (p, s') \<Rightarrow> (case path_loop p ([], []) l [] of (l', cs) \<Rightarrow> (s', l', cs)))
      else (s, l, []))"

text \<open>
  Line 108 and the lookup \<^verbatim>\<open>tl_marker[tl[2]]\<close> of line 141: a Python tuple of
  four entries accepts the indices -4 .. 3 and raises IndexError on any other.
\<close>

definition tl_marker :: "string list" where
  "tl_marker = [''ro'', ''yo'', ''go'', ''bo'']"

definition tl_marker_at :: "int \<Rightarrow> error + string" where
  "tl_marker_at i =
     (if 0 \<le> i \<and> i < 4 then Inr (tl_marker ! nat i)
      else if - 4 \<le> i \<and> i < 0 then Inr (tl_marker ! nat (i + 4))
      else Inl IndexError)"

text \<open>Lines 137-141.\<close>

fun tl_loop ::
  "(real \<times> real \<times> int) list \<Rightarrow> real list \<times> real list \<times> string list
     \<Rightarrow> error + (real list \<times> real list \<times> string list)" where
  "tl_loop [] acc = Inr acc"
| "tl_loop ((x, y, st) # tls) (tl_x, tl_y, tl_c) =
     (case tl_marker_at st of
        Inl e \<Rightarrow> Inl e
      | Inr m \<Rightarrow> tl_loop tls (tl_x @ [x], tl_y @ [y], tl_c @ [m]))"

text \<open>
  \<^verbatim>\<open>itertools.cycle(tl_c)\<close> with the number of elements already taken from it:
  \<^verbatim>\<open>next\<close> on the cycle of an empty list raises StopIteration.
\<close>

definition cycle_next :: "'a list \<Rightarrow> nat \<Rightarrow> error + ('a \<times> nat)" where
  "cycle_next xs k =
     (if xs = [] then Inl StopIteration else Inr (xs ! (k mod length xs), Suc k))"

text \<open>\<^verbatim>\<open>m[0]\<close> on a string.\<close>

definition first_char :: "string \<Rightarrow> error + char" where
  "first_char m = (case m of [] \<Rightarrow> Inl IndexError | c # _ \<Rightarrow> Inr c)"

text \<open>
  Lines 135-150. The guard reads the field directly; iterating over None would raise
  TypeError, which the guard excludes.
\<close>

definition update_tl :: "chart \<Rightarrow> locals \<Rightarrow> error + (locals \<times> call list)" where
  "update_tl s l =
     (if traffic_lights s \<noteq> None then
        (case get_traffic_lights s of
           None \<Rightarrow> Inl TypeError
         | Some tls \<Rightarrow>
             (case tl_loop tls ([], [], []) of
                Inl e \<Rightarrow> Inl e
              | Inr (tl_x, tl_y, tl_c) \<Rightarrow>
                  (if first_tl_iter l then
                     (case cycle_next tl_c 0 of
                        Inl e \<Rightarrow> Inl e
                      | Inr (m, k) \<Rightarrow>
                          Inr (l\<lparr> first_tl_iter := False, update_chart := True \<rparr>,
                               [Plot TlDots tl_x tl_y m]))
                   else
                     (case cycle_next tl_c 0 of
                        Inl e \<Rightarrow> Inl e
                      | Inr (m1, k1) \<Rightarrow>
                          (case first_char m1 of
                             Inl e \<Rightarrow> Inl e
                           | Inr c1 \<Rightarrow>
                               (case cycle_next tl_c k1 of
                                  Inl e \<Rightarrow> Inl e
                                | Inr (m2, k2) \<Rightarrow>
                                    (case first_char m2 of
                                       Inl e \<Rightarrow> Inl e
                                     | Inr c2 \<Rightarrow>
                                         Inr (l\<lparr> update_chart := True \<rparr>,
                                              [SetMarkerFaceColor TlDots c1,
                                               SetMarkerEdgeColor TlDots c2]))))))))
      else Inr (l, []))"

text \<open>Lines 110-150: the three update steps of a tick, before the redraw decision.\<close>

definition tick_updates :: "chart \<Rightarrow> locals \<Rightarrow> error + (chart \<times> locals \<times> call list)" where
  "tick_updates s l =
     (case update_pose s l of
        Inl e \<Rightarrow> Inl e
      | Inr (s1, l1, c1) \<Rightarrow>
          (case update_path s1 l1 of
             (s2, l2, c2) \<Rightarrow>
               (case update_tl s2 l2 of
                  Inl e \<Rightarrow> Inl e
                | Inr (l3, c3) \<Rightarrow> Inr (s2, l3, c1 @ c2 @ c3))))"

text \<open>Lines 152-155.\<close>

definition redraw :: "locals \<Rightarrow> locals \<times> call list" where
  "redraw l =
     (if update_chart l then (l\<lparr> update_chart := False \<rparr>, [CanvasDraw, Pause]) else (l, []))"

text \<open>One iteration of the loop of line 109.\<close>

definition tick :: "chart \<Rightarrow> locals \<Rightarrow> error + (chart \<times> locals \<times> call list)" where
  "tick s l =
     (case tick_updates s l of
        Inl e \<Rightarrow> Inl e
      | Inr (s', l', cs) \<Rightarrow>
          (case redraw l' of (l'', cs') \<Rightarrow> Inr (s', l'', cs @ cs' @ [RateSleep])))"

text \<open>
  A schedule of the node: message deliveries and render ticks in some order. The result
  holds one call list per tick. The first exception ends the run.
\<close>

datatype action = Deliver msg | Tick

fun run_loop ::
  "action list \<Rightarrow> chart \<Rightarrow> locals \<Rightarrow> error + (chart \<times> locals \<times> call list list)" where
  "run_loop [] s l = Inr (s, l, [])"
| "run_loop (Deliver m # acts) s l =
     (case deliver m s of Inl e \<Rightarrow> Inl e | Inr s' \<Rightarrow> run_loop acts s' l)"
| "run_loop (Tick # acts) s l =
     (case tick s l of
        Inl e \<Rightarrow> Inl e
      | Inr (s', l', cs) \<Rightarrow>
          (case run_loop acts s' l' of
             Inl e \<Rightarrow> Inl e
           | Inr (s'', l'', css) \<Rightarrow> Inr (s'', l'', cs # css)))"

text \<open>The call lists of the ticks of a run.\<close>

definition tick_calls ::
  "error + (chart \<times> locals \<times> call list list) \<Rightarrow> error + call list list" where
  "tick_calls r = (case r of Inl e \<Rightarrow> Inl e | Inr (s, l, css) \<Rightarrow> Inr css)"

subsection \<open>Invariants used in the proofs\<close>

text \<open>
  The invariant of an interleaved run. While the flag is up the store holds the last
  message written, and every extraction so far happened before that write; an extraction
  is only pending after a check that saw the flag up.
\<close>

definition wf_run :: "run_state \<Rightarrow> bool" where
  "wf_run r \<longleftrightarrow>
     (is_pose_updated (rs_chart r) \<longrightarrow>
        rs_written r \<noteq> [] \<and> pose (rs_chart r) = Some (stored (last (rs_written r)))
        \<and> (\<forall>p \<in> set (rs_obs r). fst p < length (rs_written r))
        \<and> subseq (map snd (rs_obs r)) (map (\<lambda>m. Some (stored m)) (butlast (rs_written r))))
     \<and> (\<not> is_pose_updated (rs_chart r) \<longrightarrow>
        subseq (map snd (rs_obs r)) (map (\<lambda>m. Some (stored m)) (rs_written r)))
     \<and> (rs_pc r = AtGet \<longrightarrow> is_pose_updated (rs_chart r))
     \<and> sorted_wrt (<) (map fst (rs_obs r))
     \<and> (\<forall>p \<in> set (rs_obs r). 0 < fst p \<and> fst p \<le> length (rs_written r)
            \<and> snd p = Some (stored (rs_written r ! (fst p - 1))))"

text \<open>A raised pose flag comes with a stored pose.\<close>

definition pose_ok :: "chart \<Rightarrow> bool" where
  "pose_ok s \<longleftrightarrow> (is_pose_updated s \<longrightarrow> pose s \<noteq> None)"

text \<open>The calls that change an artist, as opposed to drawing, pausing and sleeping.\<close>

fun artist_call :: "call \<Rightarrow> bool" where
  "artist_call (Plot a xs ys m) = True"
| "artist_call (SetXData a xs) = True"
| "artist_call (SetYData a ys) = True"
| "artist_call (SetMarkerFaceColor a c) = True"
| "artist_call (SetMarkerEdgeColor a c) = True"
| "artist_call Show = False"
| "artist_call CanvasDraw = False"
| "artist_call Pause = False"
| "artist_call RateSleep = False"

text \<open>The artist a call acts on, if any.\<close>

fun call_artist :: "call \<Rightarrow> artist option" where
  "call_artist (Plot a xs ys m) = Some a"
| "call_artist (SetXData a xs) = Some a"
| "call_artist (SetYData a ys) = Some a"
| "call_artist (SetMarkerFaceColor a c) = Some a"
| "call_artist (SetMarkerEdgeColor a c) = Some a"
| "call_artist Show = None"
| "call_artist CanvasDraw = None"
| "call_artist Pause = None"
| "call_artist RateSleep = None"

text \<open>A signal state that indexes \<^verbatim>\<open>tl_marker\<close> from the front: one of 0, 1, 2, 3.\<close>

definition valid_state :: "int \<Rightarrow> bool" where
  "valid_state st \<longleftrightarrow> 0 \<le> st \<and> st < 4"

text \<open>The triple that line 187 stores for a light.\<close>

definition light_triple :: "light \<Rightarrow> real \<times> real \<times> int" where
  "light_triple lt = (tl_pos_x lt, tl_pos_y lt, tl_state lt)"

text \<open>An action other than the delivery of a track or signal message.\<close>

fun signal_free :: "action \<Rightarrow> bool" where
  "signal_free Tick = True"
| "signal_free (Deliver (PoseMsg p)) = True"
| "signal_free (Deliver (PathMsg w)) = True"
| "signal_free (Deliver (TrackMsg w)) = False"
| "signal_free (Deliver (SignalMsg ls)) = False"

section \<open>Properties of the stores\<close>

text \<open>
  Claim C8. After one write, the dirty check succeeds and the extraction returns the written
  value; a second take with no write in between finds the flag down and returns nothing.
\<close>

theorem take_twice_second_empty:
  "pose_updated (pose_cb msg s)
   \<and> fst (take_pose (pose_cb msg s)) = Some (Some (pm_x msg, pm_y msg))
   \<and> \<not> pose_updated (snd (take_pose (pose_cb msg s)))
   \<and> fst (take_pose (snd (take_pose (pose_cb msg s)))) = None
   \<and> snd (take_pose (snd (take_pose (pose_cb msg s)))) = snd (take_pose (pose_cb msg s))"
  by (simp add: take_pose_def pose_updated_def get_pose_def pose_cb_def)

text \<open>
  Claim C10. Extraction with the flag already down is total: it hands back the stored
  value (the last one written, or the initial None / empty list) and leaves the state,
  flag included, as it was.
\<close>

theorem extract_when_clean:
  "(\<not> is_pose_updated s \<longrightarrow> get_pose s = (pose s, s))
   \<and> (\<not> is_path_updated s \<longrightarrow> get_path s = (path s, s))
   \<and> get_pose init_chart = (None, init_chart)
   \<and> get_path init_chart = ([], init_chart)"
  by (simp add: get_pose_def get_path_def init_chart_def)

theorem extract_when_clean_witness:
  "\<not> is_pose_updated (snd (get_pose (pose_cb \<lparr> pm_x = 1, pm_y = 2 \<rparr> init_chart)))
   \<and> get_pose (snd (get_pose (pose_cb \<lparr> pm_x = 1, pm_y = 2 \<rparr> init_chart)))
       = (Some (1, 2), snd (get_pose (pose_cb \<lparr> pm_x = 1, pm_y = 2 \<rparr> init_chart)))
   \<and> \<not> is_path_updated (snd (get_path (path_cb [\<lparr> wp_x = 3, wp_y = 4 \<rparr>] init_chart)))
   \<and> get_path (snd (get_path (path_cb [\<lparr> wp_x = 3, wp_y = 4 \<rparr>] init_chart)))
       = ([\<lparr> wp_x = 3, wp_y = 4 \<rparr>], snd (get_path (path_cb [\<lparr> wp_x = 3, wp_y = 4 \<rparr>] init_chart)))"
  using extract_when_clean [of "snd (get_pose (pose_cb \<lparr> pm_x = 1, pm_y = 2 \<rparr> init_chart))"]
        extract_when_clean [of "snd (get_path (path_cb [\<lparr> wp_x = 3, wp_y = 4 \<rparr>] init_chart))"]
  by (simp add: get_pose_def get_path_def pose_cb_def path_cb_def init_chart_def)

subsection \<open>Interleaved runs of the pose store\<close>

lemma wf_init: "wf_run run_init"
  by (simp add: wf_run_def run_init_def init_chart_def)

lemma subseq_map_butlast:
  assumes "subseq xs (map f (butlast ws))"
  shows "subseq xs (map f ws)"
proof -
  have "subseq (butlast ws) ws"
    by (rule sublist_imp_subseq) simp
  then have "subseq (map f (butlast ws)) (map f ws)"
    by (rule subseq_map)
  with assms show ?thesis
    by (rule subseq_order.trans)
qed

lemma wf_write:
  assumes "wf_run r"
  shows "wf_run (exec (Write m) r)"
proof -
  let ?W = "rs_written r"
  have sub: "subseq (map snd (rs_obs r)) (map (\<lambda>m. Some (stored m)) ?W)"
    using assms subseq_map_butlast [of "map snd (rs_obs r)" "\<lambda>m. Some (stored m)" ?W]
    by (auto simp: wf_run_def)
  have bound: "\<forall>p \<in> set (rs_obs r). 0 < fst p \<and> fst p \<le> length ?W
                 \<and> snd p = Some (stored (?W ! (fst p - 1)))"
    using assms by (simp add: wf_run_def)
  have sorted: "sorted_wrt (<) (map fst (rs_obs r))"
    using assms by (simp add: wf_run_def)
  show ?thesis
    unfolding wf_run_def
    using sub bound sorted
    by (auto simp: exec_def pose_cb_def stored_def nth_append less_Suc_eq_le)
qed

lemma wf_step:
  assumes "wf_run r"
  shows "wf_run (exec Step r)"
proof (cases "rs_pc r")
  case AtCheck
  then show ?thesis
    using assms by (auto simp: wf_run_def exec_def pose_updated_def)
next
  case AtGet
  let ?W = "rs_written r"
  let ?f = "\<lambda>m. Some (stored m)"
  from AtGet assms have dirty: "is_pose_updated (rs_chart r)"
    by (simp add: wf_run_def)
  with assms have ne: "?W \<noteq> []" and cur: "pose (rs_chart r) = Some (stored (last ?W))"
    and lt: "\<forall>p \<in> set (rs_obs r). fst p < length ?W"
    and sub: "subseq (map snd (rs_obs r)) (map ?f (butlast ?W))"
    by (simp_all add: wf_run_def)
  have "subseq (map snd (rs_obs r) @ [?f (last ?W)]) (map ?f (butlast ?W) @ [?f (last ?W)])"
    using sub by (simp add: list_emb_append_mono)
  moreover have "map ?f (butlast ?W) @ [?f (last ?W)] = map ?f ?W"
  proof -
    have "map ?f (butlast ?W) @ [?f (last ?W)] = map ?f (butlast ?W @ [last ?W])"
      by simp
    also have "butlast ?W @ [last ?W] = ?W"
      using ne by (rule append_butlast_last_id)
    finally show ?thesis .
  qed
  ultimately have sub': "subseq (map snd (rs_obs r) @ [pose (rs_chart r)]) (map ?f ?W)"
    using cur by simp
  have last_nth: "last ?W = ?W ! (length ?W - 1)"
    using ne by (rule last_conv_nth)
  have sorted: "sorted_wrt (<) (map fst (rs_obs r) @ [length ?W])"
    using assms lt by (auto simp: wf_run_def sorted_wrt_append)
  have bound: "\<forall>p \<in> set (rs_obs r). 0 < fst p \<and> fst p \<le> length ?W
                 \<and> snd p = Some (stored (?W ! (fst p - 1)))"
    using assms by (simp add: wf_run_def)
  have e: "exec Step r = r\<lparr> rs_chart := (rs_chart r)\<lparr> is_pose_updated := False \<rparr>,
                rs_pc := AtCheck,
                rs_obs := rs_obs r @ [(length ?W, pose (rs_chart r))] \<rparr>"
    using AtGet by (simp add: exec_def get_pose_def)
  have new: "0 < length ?W \<and> pose (rs_chart r) = Some (stored (?W ! (length ?W - 1)))"
    using ne cur last_nth by simp
  show ?thesis
    unfolding wf_run_def e
    using sub' sorted bound new by simp
qed

lemma wf_exec: "wf_run r \<Longrightarrow> wf_run (exec e r)"
  by (cases e) (simp_all add: wf_write wf_step)

lemma wf_foldl: "wf_run r \<Longrightarrow> wf_run (foldl (\<lambda>r e. exec e r) r evs)"
  by (induction evs arbitrary: r) (simp_all add: wf_exec)

lemma wf_run_run: "wf_run (run evs)"
  unfolding run_def by (rule wf_foldl) (rule wf_init)

lemma written_foldl:
  "rs_written (foldl (\<lambda>r e. exec e r) r evs) = rs_written r @ [m. Write m \<leftarrow> evs]"
  by (induction evs arbitrary: r)
     (auto simp: exec_def get_pose_def split: event.splits pc.splits)

text \<open>
  Claim C1. In every interleaving of pose deliveries with the consumer's calls, started
  from the initial store: the values the consumer extracts form a subsequence of the
  values written, in write order; each extraction returns the value of the latest write
  made before it (its stamp is the number of writes so far), and the stamps of successive
  extractions increase strictly, so no write is returned twice and no earlier value comes
  back after a later write. The recorded writes are exactly the deliveries of the run.
\<close>

theorem observed_is_sparse_subsequence:
  "subseq (map snd (rs_obs (run evs))) (map (\<lambda>m. Some (stored m)) (rs_written (run evs)))
   \<and> sorted_wrt (<) (map fst (rs_obs (run evs)))
   \<and> (\<forall>p \<in> set (rs_obs (run evs)).
          0 < fst p \<and> fst p \<le> length (rs_written (run evs))
          \<and> snd p = Some (stored (rs_written (run evs) ! (fst p - 1))))
   \<and> rs_written (run evs) = [m. Write m \<leftarrow> evs]"
proof -
  have w: "wf_run (run evs)" by (rule wf_run_run)
  have "subseq (map snd (rs_obs (run evs))) (map (\<lambda>m. Some (stored m)) (rs_written (run evs)))"
    using w subseq_map_butlast [of "map snd (rs_obs (run evs))" "\<lambda>m. Some (stored m)" "rs_written (run evs)"]
    by (auto simp: wf_run_def)
  moreover have "rs_written (run evs) = [m. Write m \<leftarrow> evs]"
    by (simp add: run_def written_foldl run_init_def)
  ultimately show ?thesis
    using w by (simp add: wf_run_def)
qed

theorem observed_is_sparse_subsequence_witness:
  "rs_obs (run [Write \<lparr> pm_x = 1, pm_y = 1 \<rparr>, Write \<lparr> pm_x = 2, pm_y = 2 \<rparr>, Step, Step,
                Step, Write \<lparr> pm_x = 3, pm_y = 3 \<rparr>, Step, Step])
     = [(2, Some (2, 2)), (3, Some (3, 3))]
   \<and> subseq [Some (2 :: real, 2 :: real), Some (3, 3)] [Some (1, 1), Some (2, 2), Some (3, 3)]
   \<and> rs_written (run [Write \<lparr> pm_x = 1, pm_y = 1 \<rparr>, Write \<lparr> pm_x = 2, pm_y = 2 \<rparr>, Step, Step,
                Step, Write \<lparr> pm_x = 3, pm_y = 3 \<rparr>, Step, Step])
     = [\<lparr> pm_x = 1, pm_y = 1 \<rparr>, \<lparr> pm_x = 2, pm_y = 2 \<rparr>, \<lparr> pm_x = 3, pm_y = 3 \<rparr>]"
proof -
  let ?evs = "[Write \<lparr> pm_x = 1, pm_y = 1 \<rparr>, Write \<lparr> pm_x = 2, pm_y = 2 \<rparr>, Step, Step,
                Step, Write \<lparr> pm_x = 3, pm_y = 3 \<rparr>, Step, Step]"
  have obs: "rs_obs (run ?evs) = [(2, Some (2, 2)), (3, Some (3, 3))]"
    by (simp add: run_def run_init_def init_chart_def exec_def pose_cb_def pose_updated_def
          get_pose_def)
  show ?thesis
    using observed_is_sparse_subsequence [of ?evs] obs
    by (simp add: stored_def)
qed

text \<open>
  Claim C2, as stated, fails: the check and the extraction are two critical sections. After
  the first delivery the check answers True with (1, 1) pending; a second delivery falls
  between the check and the extraction; the extraction returns (2, 2), and (1, 1), the
  update the check saw, is never handed to the consumer.
\<close>

theorem check_then_get_not_atomic:
  "rs_pc (run [Write \<lparr> pm_x = 1, pm_y = 1 \<rparr>, Step]) = AtGet
   \<and> pose (rs_chart (run [Write \<lparr> pm_x = 1, pm_y = 1 \<rparr>, Step])) = Some (1, 1)
   \<and> rs_obs (run [Write \<lparr> pm_x = 1, pm_y = 1 \<rparr>, Step, Write \<lparr> pm_x = 2, pm_y = 2 \<rparr>, Step])
       = [(2, Some (2, 2))]
   \<and> rs_pc (run [Write \<lparr> pm_x = 1, pm_y = 1 \<rparr>, Step, Write \<lparr> pm_x = 2, pm_y = 2 \<rparr>, Step])
       = AtCheck
   \<and> \<not> pose_updated
         (rs_chart (run [Write \<lparr> pm_x = 1, pm_y = 1 \<rparr>, Step, Write \<lparr> pm_x = 2, pm_y = 2 \<rparr>, Step]))"
  by (simp add: run_def run_init_def init_chart_def exec_def pose_cb_def pose_updated_def
        get_pose_def)

lemma foldl_pose_cb:
  "foldl (\<lambda>s m. pose_cb m s) s ms =
     (if ms = [] then s else s\<lparr> pose := Some (stored (last ms)), is_pose_updated := True \<rparr>)"
  by (induction ms arbitrary: s) (auto simp: pose_cb_def stored_def)

text \<open>
  Claim C2, amended. The flag is cleared in the critical section that extracts the value,
  and the check is a critical section of its own. Whatever deliveries fall between the
  check and the extraction, the extraction returns the stored value at that moment, which
  is the last of them (or the value the check saw when there were none), leaves it in the
  store and lowers the flag, so the next take without a new write returns nothing.
\<close>

theorem get_pose_clears_flag_with_read:
  "fst (get_pose (foldl (\<lambda>s m. pose_cb m s) s ms))
     = (if ms = [] then pose s else Some (stored (last ms)))
   \<and> \<not> pose_updated (snd (get_pose (foldl (\<lambda>s m. pose_cb m s) s ms)))
   \<and> pose (snd (get_pose (foldl (\<lambda>s m. pose_cb m s) s ms)))
       = fst (get_pose (foldl (\<lambda>s m. pose_cb m s) s ms))
   \<and> fst (take_pose (snd (get_pose (foldl (\<lambda>s m. pose_cb m s) s ms)))) = None"
  by (simp add: foldl_pose_cb get_pose_def pose_updated_def take_pose_def)

subsection \<open>The track assertion\<close>

lemma deliver_update:
  "is_update m \<Longrightarrow> \<exists>s'. deliver m s = Inr s' \<and> waypoints s' = waypoints s"
  by (cases m)
     (simp_all add: is_update_def is_track_def deliver_def pose_cb_def path_cb_def
        traffic_lights_cb_def)

lemma deliver_all_updates:
  "\<forall>m \<in> set ms. is_update m \<Longrightarrow> \<exists>s'. deliver_all ms s = Inr s' \<and> waypoints s' = waypoints s"
proof (induction ms arbitrary: s)
  case Nil
  then show ?case by simp
next
  case (Cons m ms)
  from Cons.prems have "is_update m" by simp
  then obtain s1 where s1: "deliver m s = Inr s1" "waypoints s1 = waypoints s"
    using deliver_update by blast
  from Cons.prems have "\<forall>m \<in> set ms. is_update m" by simp
  then obtain s2 where "deliver_all ms s1 = Inr s2" "waypoints s2 = waypoints s1"
    using Cons.IH by blast
  with s1 show ?case by simp
qed

text \<open>
  Claim C3, as stated, fails when the first track message carries no waypoints: the
  assertion tests that the stored list is empty, so the second delivery passes it.
\<close>

theorem second_track_after_empty_track_accepted:
  "\<not> isl (deliver_all [TrackMsg [], TrackMsg [\<lparr> wp_x = 0, wp_y = 0 \<rparr>]] init_chart)"
  by (simp add: deliver_def waypoints_cb_def init_chart_def)

text \<open>
  Claim C3, amended. On an empty store a track message with at least one waypoint is
  accepted, any pose, path and signal deliveries after it succeed, and a further track
  message, at any point after that, fails the assertion.
\<close>

theorem second_track_asserts:
  assumes "waypoints s = []" and "wps \<noteq> []" and "\<forall>m \<in> set ms. is_update m"
  shows "\<exists>s'. deliver_all (TrackMsg wps # ms) s = Inr s'
              \<and> deliver (TrackMsg wps') s' = Inl AssertionError"
proof -
  let ?s1 = "s\<lparr> waypoints := wps,
                subscriptions := subscriptions s @
                  [''/current_pose'', ''/final_waypoints'', ''/vehicle/traffic_lights''] \<rparr>"
  have first: "deliver (TrackMsg wps) s = Inr ?s1"
    using assms(1) by (simp add: deliver_def waypoints_cb_def)
  obtain s' where s': "deliver_all ms ?s1 = Inr s'" "waypoints s' = waypoints ?s1"
    using deliver_all_updates [OF assms(3)] by blast
  have "deliver (TrackMsg wps') s' = Inl AssertionError"
    using s'(2) assms(2) by (simp add: deliver_def waypoints_cb_def)
  with first s'(1) show ?thesis by simp
qed

theorem second_track_asserts_witness:
  "waypoints init_chart = []
   \<and> [\<lparr> wp_x = 0, wp_y = 0 \<rparr>] \<noteq> []
   \<and> list_all is_update [PoseMsg \<lparr> pm_x = 1, pm_y = 2 \<rparr>, SignalMsg []]
   \<and> (\<exists>s'. deliver_all [TrackMsg [\<lparr> wp_x = 0, wp_y = 0 \<rparr>], PoseMsg \<lparr> pm_x = 1, pm_y = 2 \<rparr>,
                         SignalMsg []] init_chart = Inr s'
            \<and> deliver (TrackMsg []) s' = Inl AssertionError)"
proof -
  have a: "waypoints init_chart = []"
    by (simp add: init_chart_def)
  have b: "[\<lparr> wp_x = 0, wp_y = 0 \<rparr>] \<noteq> []"
    by simp
  have c: "\<forall>m \<in> set [PoseMsg \<lparr> pm_x = 1, pm_y = 2 \<rparr>, SignalMsg []]. is_update m"
    by (simp add: is_update_def is_track_def)
  show ?thesis
    using a b c second_track_asserts [OF a b c, of "[]"] by (simp add: list_all_iff)
qed

subsection \<open>The steps of a render tick\<close>

lemma update_pose_calls:
  "update_pose s l = Inr (s', l', cs) \<Longrightarrow> list_all artist_call cs"
  by (auto simp: update_pose_def get_pose_def split: if_splits option.splits prod.splits)

lemma update_pose_clean:
  "\<not> is_pose_updated s \<Longrightarrow> update_pose s l = Inr (s, l, [])"
  by (simp add: update_pose_def pose_updated_def)

lemma update_pose_ok:
  assumes "pose_ok s"
  shows "\<exists>s' l' cs. update_pose s l = Inr (s', l', cs)
           \<and> traffic_lights s' = traffic_lights s \<and> pose_ok s'
           \<and> first_tl_iter l' = first_tl_iter l"
  using assms
  by (cases "pose s")
     (auto simp: update_pose_def pose_updated_def get_pose_def pose_ok_def)

lemma path_loop_props:
  "path_loop p acc l cs = (l', cs') \<Longrightarrow>
     first_tl_iter l' = first_tl_iter l
     \<and> update_chart l' = (update_chart l \<or> p \<noteq> [])
     \<and> (list_all artist_call cs \<longrightarrow> list_all artist_call cs')"
proof (induction p acc l cs rule: path_loop.induct)
  case (1 acc l cs)
  then show ?case by simp
next
  case (2 wp wps path_wp_x path_wp_y l cs)
  from "2.prems" "2.IH" show ?case
    by (auto split: if_splits)
qed

lemma update_path_props:
  assumes "update_path s l = (s', l', cs)"
  shows "traffic_lights s' = traffic_lights s \<and> pose s' = pose s
         \<and> is_pose_updated s' = is_pose_updated s
         \<and> first_tl_iter l' = first_tl_iter l \<and> list_all artist_call cs"
proof (cases "path_updated s")
  case False
  with assms show ?thesis by (simp add: update_path_def)
next
  case True
  obtain l1 cs1 where pl: "path_loop (path s) ([], []) l [] = (l1, cs1)"
    by (cases "path_loop (path s) ([], []) l []") auto
  from True assms pl have "s' = s\<lparr> is_path_updated := False \<rparr>" "l' = l1" "cs = cs1"
    by (simp_all add: update_path_def get_path_def)
  with path_loop_props [OF pl] show ?thesis by simp
qed

lemma update_path_clean:
  "\<not> is_path_updated s \<Longrightarrow> update_path s l = (s, l, [])"
  by (simp add: update_path_def path_updated_def)

lemma tl_loop_valid:
  "list_all (\<lambda>t. valid_state (snd (snd t))) tls \<Longrightarrow>
     tl_loop tls (tl_x, tl_y, tl_c)
       = Inr (tl_x @ map fst tls, tl_y @ map (\<lambda>t. fst (snd t)) tls,
              tl_c @ map (\<lambda>t. tl_marker ! nat (snd (snd t))) tls)"
proof (induction tls arbitrary: tl_x tl_y tl_c)
  case Nil
  then show ?case by simp
next
  case (Cons t tls)
  obtain x y st where t: "t = (x, y, st)" by (cases t) auto
  from Cons.prems t have "tl_marker_at st = Inr (tl_marker ! nat st)"
    by (simp add: tl_marker_at_def valid_state_def)
  with Cons t show ?case by simp
qed

lemma marker_first_char:
  "valid_state st \<Longrightarrow> \<exists>c. first_char (tl_marker ! nat st) = Inr c"
proof -
  assume "valid_state st"
  then have "st = 0 \<or> st = 1 \<or> st = 2 \<or> st = 3"
    by (auto simp: valid_state_def)
  then show ?thesis
    by (auto simp: tl_marker_def first_char_def)
qed

lemma update_tl_absent:
  "traffic_lights s = None \<Longrightarrow> update_tl s l = Inr (l, [])"
  by (simp add: update_tl_def)

lemma update_tl_calls:
  "update_tl s l = Inr (l', cs) \<Longrightarrow> list_all artist_call cs"
  by (auto simp: update_tl_def split: if_splits option.splits sum.splits prod.splits)

lemma update_tl_present:
  assumes "traffic_lights s = Some tls" and "tls \<noteq> []"
    and "list_all (\<lambda>t. valid_state (snd (snd t))) tls"
  shows "\<exists>m c c'. tl_marker_at (snd (snd (hd tls))) = Inr m \<and> first_char m = Inr c
           \<and> update_tl s l =
               (if first_tl_iter l
                then Inr (l\<lparr> first_tl_iter := False, update_chart := True \<rparr>,
                          [Plot TlDots (map fst tls) (map (\<lambda>t. fst (snd t)) tls) m])
                else Inr (l\<lparr> update_chart := True \<rparr>,
                          [SetMarkerFaceColor TlDots c, SetMarkerEdgeColor TlDots c']))"
proof -
  let ?cs = "map (\<lambda>t. tl_marker ! nat (snd (snd t))) tls"
  obtain t ts where tls: "tls = t # ts"
    using assms(2) by (cases tls) auto
  have loop: "tl_loop tls ([], [], []) = Inr (map fst tls, map (\<lambda>t. fst (snd t)) tls, ?cs)"
    using tl_loop_valid [OF assms(3), of "[]" "[]" "[]"] by simp
  have v0: "valid_state (snd (snd t))"
    using assms(3) tls by simp
  then have m: "tl_marker_at (snd (snd (hd tls))) = Inr (tl_marker ! nat (snd (snd t)))"
    using tls by (simp add: tl_marker_at_def valid_state_def)
  obtain c where c: "first_char (tl_marker ! nat (snd (snd t))) = Inr c"
    using marker_first_char [OF v0] by blast
  have n0: "cycle_next ?cs 0 = Inr (tl_marker ! nat (snd (snd t)), Suc 0)"
    using tls by (simp add: cycle_next_def)
  define k where "k = Suc 0 mod length tls"
  have k: "k < length tls"
    unfolding k_def using assms(2) by (intro mod_less_divisor) simp
  then have "tls ! k \<in> set tls"
    by (rule nth_mem)
  then have v1: "valid_state (snd (snd (tls ! k)))"
    using assms(3) by (simp add: list_all_iff)
  have "cycle_next ?cs (Suc 0) = Inr (?cs ! k, Suc (Suc 0))"
    using assms(2) by (simp only: cycle_next_def k_def length_map map_is_Nil_conv if_False)
  then have n1: "cycle_next ?cs (Suc 0) = Inr (tl_marker ! nat (snd (snd (tls ! k))), Suc (Suc 0))"
    using k by simp
  obtain c' where c': "first_char (tl_marker ! nat (snd (snd (tls ! k)))) = Inr c'"
    using marker_first_char [OF v1] by blast
  have "update_tl s l =
          (if first_tl_iter l
           then Inr (l\<lparr> first_tl_iter := False, update_chart := True \<rparr>,
                     [Plot TlDots (map fst tls) (map (\<lambda>t. fst (snd t)) tls)
                        (tl_marker ! nat (snd (snd t)))])
           else Inr (l\<lparr> update_chart := True \<rparr>,
                     [SetMarkerFaceColor TlDots c, SetMarkerEdgeColor TlDots c']))"
    using assms(1) loop n0 n1 c c'
    by (simp add: update_tl_def get_traffic_lights_def)
  with m c show ?thesis by blast
qed

lemma tick_updates_calls:
  assumes "tick_updates s l = Inr (s', l', cs)"
  shows "list_all artist_call cs"
proof -
  from assms obtain s1 l1 c1 where up: "update_pose s l = Inr (s1, l1, c1)"
    by (auto simp: tick_updates_def split: sum.splits)
  obtain s2 l2 c2 where upa: "update_path s1 l1 = (s2, l2, c2)"
    by (cases "update_path s1 l1") auto
  from assms up upa obtain l3 c3 where utl: "update_tl s2 l2 = Inr (l3, c3)"
    and cs: "cs = c1 @ c2 @ c3"
    by (auto simp: tick_updates_def split: sum.splits)
  from update_pose_calls [OF up] update_path_props [OF upa] update_tl_calls [OF utl] cs
  show ?thesis by simp
qed

lemma artist_call_not_ui:
  "list_all artist_call cs \<Longrightarrow> CanvasDraw \<notin> set cs \<and> Pause \<notin> set cs \<and> RateSleep \<notin> set cs"
  by (auto simp: list_all_iff)

lemma tick_from_updates:
  assumes "tick_updates s l = Inr (s', l', cs)"
  shows "tick s l = Inr (s', l'\<lparr> update_chart := False \<rparr>,
                         cs @ (if update_chart l' then [CanvasDraw, Pause] else []) @ [RateSleep])"
proof (cases "update_chart l'")
  case True
  with assms show ?thesis by (simp add: tick_def redraw_def)
next
  case False
  then have "l'\<lparr> update_chart := False \<rparr> = l'" by simp
  with False assms show ?thesis by (simp add: tick_def redraw_def)
qed

lemma quiet_tick:
  assumes "\<not> is_pose_updated s" and "\<not> is_path_updated s" and "traffic_lights s = None"
  shows "tick s l = Inr (s, l\<lparr> update_chart := False \<rparr>,
                         (if update_chart l then [CanvasDraw, Pause] else []) @ [RateSleep])"
proof -
  have "tick_updates s l = Inr (s, l, [])"
    using assms
    by (simp add: tick_updates_def update_pose_clean update_path_clean update_tl_absent)
  from tick_from_updates [OF this] show ?thesis by simp
qed

lemma quiet_ticks:
  assumes "\<not> is_pose_updated s" and "\<not> is_path_updated s" and "traffic_lights s = None"
    and "\<not> update_chart l"
  shows "run_loop (replicate n Tick) s l = Inr (s, l, replicate n [RateSleep])"
proof (induction n)
  case 0
  show ?case by simp
next
  case (Suc n)
  have "l\<lparr> update_chart := False \<rparr> = l"
    using assms(4) by simp
  then have "tick s l = Inr (s, l, [RateSleep])"
    using quiet_tick [OF assms(1-3), of l] assms(4) by simp
  with Suc show ?case by simp
qed

subsection \<open>Redraw decisions\<close>

text \<open>
  Claim C4, as stated, fails on the first tick: \<^verbatim>\<open>update_chart\<close> starts out True
  (line 106), so with the track set and nothing else ever delivered the first tick draws
  the canvas.
\<close>

theorem first_quiet_tick_redraws:
  "tick_calls (run_loop [Deliver (TrackMsg [\<lparr> wp_x = 0, wp_y = 0 \<rparr>]), Tick] init_chart loop_locals)
     = Inr [[CanvasDraw, Pause, RateSleep]]"
  by (simp add: tick_calls_def deliver_def waypoints_cb_def init_chart_def loop_locals_def
        quiet_tick)

text \<open>
  Claim C4, amended. With no pose or path update pending and no signal data, and none
  arriving, the first tick of the loop draws the canvas once and every later tick does
  nothing but sleep: one redraw over all ticks.
\<close>

theorem only_first_quiet_tick_redraws:
  assumes "\<not> is_pose_updated s" and "\<not> is_path_updated s" and "traffic_lights s = None"
  shows "tick_calls (run_loop (replicate (Suc n) Tick) s loop_locals)
           = Inr ([CanvasDraw, Pause, RateSleep] # replicate n [RateSleep])"
proof -
  have first: "tick s loop_locals
                 = Inr (s, loop_locals\<lparr> update_chart := False \<rparr>, [CanvasDraw, Pause, RateSleep])"
    using quiet_tick [OF assms, of loop_locals] by (simp add: loop_locals_def)
  have rest: "run_loop (replicate n Tick) s (loop_locals\<lparr> update_chart := False \<rparr>)
                = Inr (s, loop_locals\<lparr> update_chart := False \<rparr>, replicate n [RateSleep])"
    by (rule quiet_ticks [OF assms]) simp
  show ?thesis
    using first rest by (simp add: tick_calls_def)
qed

theorem only_first_quiet_tick_redraws_witness:
  "\<not> is_pose_updated (init_chart\<lparr> waypoints := [\<lparr> wp_x = 0, wp_y = 0 \<rparr>] \<rparr>)
   \<and> \<not> is_path_updated (init_chart\<lparr> waypoints := [\<lparr> wp_x = 0, wp_y = 0 \<rparr>] \<rparr>)
   \<and> traffic_lights (init_chart\<lparr> waypoints := [\<lparr> wp_x = 0, wp_y = 0 \<rparr>] \<rparr>) = None
   \<and> tick_calls (run_loop [Tick, Tick, Tick]
                   (init_chart\<lparr> waypoints := [\<lparr> wp_x = 0, wp_y = 0 \<rparr>] \<rparr>) loop_locals)
       = Inr [[CanvasDraw, Pause, RateSleep], [RateSleep], [RateSleep]]"
proof -
  let ?s = "init_chart\<lparr> waypoints := [\<lparr> wp_x = 0, wp_y = 0 \<rparr>] \<rparr>"
  have a: "\<not> is_pose_updated ?s" by (simp add: init_chart_def)
  have b: "\<not> is_path_updated ?s" by (simp add: init_chart_def)
  have c: "traffic_lights ?s = None" by (simp add: init_chart_def)
  have r: "replicate (Suc (Suc (Suc 0))) Tick = [Tick, Tick, Tick]" by simp
  show ?thesis
    using a b c only_first_quiet_tick_redraws [OF a b c, of "Suc (Suc 0)"]
    unfolding r by simp
qed

text \<open>
  Claim C5, as stated, fails: \<^verbatim>\<open>plt.pause\<close> sits inside the
  \<^verbatim>\<open>if update_chart\<close> branch, so a tick without a change does not yield to the
  user interface. Here the second tick pauses zero times.
\<close>

theorem unchanged_tick_does_not_pause:
  "map_sum id (map (\<lambda>cs. (count_list cs CanvasDraw, count_list cs Pause, count_list cs RateSleep)))
     (tick_calls (run_loop [Deliver (TrackMsg [\<lparr> wp_x = 0, wp_y = 0 \<rparr>]), Tick, Tick]
                    init_chart loop_locals))
     = Inr [(1, 1, 1), (0, 0, 1)]"
  by (simp add: tick_calls_def deliver_def waypoints_cb_def init_chart_def loop_locals_def
        quiet_tick)

text \<open>
  Claim C5, amended. A tick whose update steps succeed ends with the canvas draw followed
  by the pause exactly when \<^verbatim>\<open>update_chart\<close> is True after the update steps, and
  with one \<^verbatim>\<open>rate.sleep()\<close> in either case; the update steps themselves neither
  draw, pause nor sleep, and the flag is False again after the tick.
\<close>

theorem redraw_and_pause_iff_changed:
  assumes "tick_updates s l = Inr (s', l', cs)"
  shows "tick s l = Inr (s', l'\<lparr> update_chart := False \<rparr>,
                         cs @ (if update_chart l' then [CanvasDraw, Pause] else []) @ [RateSleep])
         \<and> CanvasDraw \<notin> set cs \<and> Pause \<notin> set cs \<and> RateSleep \<notin> set cs"
  using tick_from_updates [OF assms] artist_call_not_ui [OF tick_updates_calls [OF assms]]
  by simp

theorem redraw_and_pause_iff_changed_witness:
  "tick_updates (pose_cb \<lparr> pm_x = 1, pm_y = 2 \<rparr> init_chart) (loop_locals\<lparr> update_chart := False \<rparr>)
     = Inr (snd (get_pose (pose_cb \<lparr> pm_x = 1, pm_y = 2 \<rparr> init_chart)),
            loop_locals\<lparr> first_iter := False \<rparr>, [Plot CarDot [1] [2] ''ko''])
   \<and> tick (pose_cb \<lparr> pm_x = 1, pm_y = 2 \<rparr> init_chart) (loop_locals\<lparr> update_chart := False \<rparr>)
     = Inr (snd (get_pose (pose_cb \<lparr> pm_x = 1, pm_y = 2 \<rparr> init_chart)),
            loop_locals\<lparr> first_iter := False, update_chart := False \<rparr>,
            [Plot CarDot [1] [2] ''ko'', CanvasDraw, Pause, RateSleep])"
proof -
  let ?s = "pose_cb \<lparr> pm_x = 1, pm_y = 2 \<rparr> init_chart"
  let ?l = "loop_locals\<lparr> update_chart := False \<rparr>"
  have u: "tick_updates ?s ?l
             = Inr (snd (get_pose ?s), loop_locals\<lparr> first_iter := False \<rparr>,
                    [Plot CarDot [1] [2] ''ko''])"
    by (simp add: tick_updates_def update_pose_def update_path_def update_tl_def
          pose_updated_def path_updated_def get_pose_def pose_cb_def init_chart_def
          loop_locals_def)
  show ?thesis
    using u redraw_and_pause_iff_changed [OF u] by (simp add: loop_locals_def)
qed

subsection \<open>Signal rendering\<close>

lemma foldl_snoc_map:
  "foldl (\<lambda>acc t. acc @ [f t]) a xs = a @ map f xs"
  by (induction xs arbitrary: a) simp_all

lemma cb_lights:
  "traffic_lights (traffic_lights_cb lights s) = Some (map light_triple lights)"
proof -
  have "(\<lambda>acc t. acc @ [(tl_pos_x t, tl_pos_y t, tl_state t)])
          = (\<lambda>acc t. acc @ [light_triple t])"
    by (simp add: light_triple_def)
  then show ?thesis
    using foldl_snoc_map [of light_triple "[]" lights]
    by (simp add: traffic_lights_cb_def)
qed

lemma update_pose_artist:
  "update_pose s l = Inr (s', l', cs) \<Longrightarrow> list_all (\<lambda>k. call_artist k = Some CarDot) cs"
  by (auto simp: update_pose_def get_pose_def split: if_splits option.splits prod.splits)

lemma path_loop_artist:
  "path_loop p acc l cs = (l', cs') \<Longrightarrow> list_all (\<lambda>k. call_artist k = Some PathLine) cs \<Longrightarrow>
     list_all (\<lambda>k. call_artist k = Some PathLine) cs'"
proof (induction p acc l cs rule: path_loop.induct)
  case (1 acc l cs)
  then show ?case by simp
next
  case (2 wp wps path_wp_x path_wp_y l cs)
  from "2.prems" "2.IH" show ?case
    by (auto split: if_splits)
qed

lemma update_path_artist:
  assumes "update_path s l = (s', l', cs)"
  shows "list_all (\<lambda>k. call_artist k = Some PathLine) cs"
proof (cases "path_updated s")
  case False
  with assms show ?thesis by (simp add: update_path_def)
next
  case True
  obtain l1 cs1 where pl: "path_loop (path s) ([], []) l [] = (l1, cs1)"
    by (cases "path_loop (path s) ([], []) l []") auto
  from True assms pl have "cs = cs1"
    by (simp add: update_path_def get_path_def)
  with path_loop_artist [OF pl] show ?thesis by simp
qed

lemma tick_with_signals:
  assumes "traffic_lights s = Some tls" and "tls \<noteq> []"
    and "list_all (\<lambda>t. valid_state (snd (snd t))) tls" and "pose_ok s"
  shows "\<exists>s' l' pre m c c'.
           tl_marker_at (snd (snd (hd tls))) = Inr m \<and> first_char m = Inr c
           \<and> list_all (\<lambda>k. call_artist k = Some CarDot \<or> call_artist k = Some PathLine) pre
           \<and> tick s l = Inr (s', l',
                 pre @ (if first_tl_iter l
                        then [Plot TlDots (map fst tls) (map (\<lambda>t. fst (snd t)) tls) m]
                        else [SetMarkerFaceColor TlDots c, SetMarkerEdgeColor TlDots c'])
                     @ [CanvasDraw, Pause, RateSleep])
           \<and> traffic_lights s' = Some tls \<and> pose_ok s' \<and> \<not> first_tl_iter l'"
proof -
  obtain s1 l1 c1 where up: "update_pose s l = Inr (s1, l1, c1)"
    and s1: "traffic_lights s1 = traffic_lights s" "pose_ok s1"
    and l1: "first_tl_iter l1 = first_tl_iter l"
    using update_pose_ok [OF assms(4), of l] by blast
  obtain s2 l2 c2 where upa: "update_path s1 l1 = (s2, l2, c2)"
    by (cases "update_path s1 l1") auto
  note p2 = update_path_props [OF upa]
  have tl2: "traffic_lights s2 = Some tls"
    using p2 s1(1) assms(1) by simp
  have ok2: "pose_ok s2"
    using p2 s1(2) by (simp add: pose_ok_def)
  have f2: "first_tl_iter l2 = first_tl_iter l"
    using p2 l1 by simp
  obtain m c c' where m: "tl_marker_at (snd (snd (hd tls))) = Inr m" "first_char m = Inr c"
    and utl: "update_tl s2 l2 =
               (if first_tl_iter l2
                then Inr (l2\<lparr> first_tl_iter := False, update_chart := True \<rparr>,
                          [Plot TlDots (map fst tls) (map (\<lambda>t. fst (snd t)) tls) m])
                else Inr (l2\<lparr> update_chart := True \<rparr>,
                          [SetMarkerFaceColor TlDots c, SetMarkerEdgeColor TlDots c']))"
    using update_tl_present [OF tl2 assms(2,3), of l2] by blast
  have pre: "list_all (\<lambda>k. call_artist k = Some CarDot \<or> call_artist k = Some PathLine) (c1 @ c2)"
    using update_pose_artist [OF up] update_path_artist [OF upa] by (auto simp: list_all_iff)
  show ?thesis
  proof (cases "first_tl_iter l")
    case True
    let ?l3 = "l2\<lparr> first_tl_iter := False, update_chart := True \<rparr>"
    let ?c3 = "[Plot TlDots (map fst tls) (map (\<lambda>t. fst (snd t)) tls) m]"
    have "tick_updates s l = Inr (s2, ?l3, c1 @ c2 @ ?c3)"
      using up upa utl True f2 by (simp add: tick_updates_def)
    from tick_from_updates [OF this]
    have "tick s l = Inr (s2, ?l3\<lparr> update_chart := False \<rparr>,
                          (c1 @ c2) @ ?c3 @ [CanvasDraw, Pause, RateSleep])"
      by simp
    with True m pre tl2 ok2 show ?thesis
      by (intro exI [of _ s2] exI [of _ "?l3\<lparr> update_chart := False \<rparr>"]
            exI [of _ "c1 @ c2"] exI [of _ m] exI [of _ c] exI [of _ c']) simp
  next
    case False
    let ?l3 = "l2\<lparr> update_chart := True \<rparr>"
    let ?c3 = "[SetMarkerFaceColor TlDots c, SetMarkerEdgeColor TlDots c']"
    have "tick_updates s l = Inr (s2, ?l3, c1 @ c2 @ ?c3)"
      using up upa utl False f2 by (simp add: tick_updates_def)
    from tick_from_updates [OF this]
    have "tick s l = Inr (s2, ?l3\<lparr> update_chart := False \<rparr>,
                          (c1 @ c2) @ ?c3 @ [CanvasDraw, Pause, RateSleep])"
      by simp
    with False m pre tl2 ok2 f2 show ?thesis
      by (intro exI [of _ s2] exI [of _ "?l3\<lparr> update_chart := False \<rparr>"]
            exI [of _ "c1 @ c2"] exI [of _ m] exI [of _ c] exI [of _ c']) simp
  qed
qed

lemma run_with_signals:
  assumes "tls \<noteq> []" and "list_all (\<lambda>t. valid_state (snd (snd t))) tls"
    and "tl_marker_at (snd (snd (hd tls))) = Inr m" and "first_char m = Inr c"
  shows "traffic_lights s = Some tls \<Longrightarrow> pose_ok s \<Longrightarrow> list_all signal_free acts \<Longrightarrow>
         \<exists>s' l' css. run_loop acts s l = Inr (s', l', css)
           \<and> traffic_lights s' = Some tls
           \<and> length css = count_list acts Tick
           \<and> list_all (\<lambda>cs. CanvasDraw \<in> set cs
                  \<and> (Plot TlDots (map fst tls) (map (\<lambda>t. fst (snd t)) tls) m \<in> set cs
                      \<or> SetMarkerFaceColor TlDots c \<in> set cs)) css"
proof (induction acts arbitrary: s l)
  case Nil
  then show ?case by simp
next
  case (Cons a acts)
  from Cons.prems(3) have rest: "list_all signal_free acts" by simp
  show ?case
  proof (cases a)
    case Tick
    obtain s1 l1 pre m' c1 c' where m': "tl_marker_at (snd (snd (hd tls))) = Inr m'"
        "first_char m' = Inr c1"
      and t: "tick s l = Inr (s1, l1,
                 pre @ (if first_tl_iter l
                        then [Plot TlDots (map fst tls) (map (\<lambda>t. fst (snd t)) tls) m']
                        else [SetMarkerFaceColor TlDots c1, SetMarkerEdgeColor TlDots c'])
                     @ [CanvasDraw, Pause, RateSleep])"
      and s1: "traffic_lights s1 = Some tls" "pose_ok s1"
      using tick_with_signals [OF Cons.prems(1) assms(1,2) Cons.prems(2), of l] by blast
    from m' assms(3,4) have same: "m' = m" "c1 = c" by simp_all
    obtain s' l' css where r: "run_loop acts s1 l1 = Inr (s', l', css)"
      and r': "traffic_lights s' = Some tls" "length css = count_list acts Tick"
        "list_all (\<lambda>cs. CanvasDraw \<in> set cs
                  \<and> (Plot TlDots (map fst tls) (map (\<lambda>t. fst (snd t)) tls) m \<in> set cs
                      \<or> SetMarkerFaceColor TlDots c \<in> set cs)) css"
      using Cons.IH [OF s1 rest, of l1] by blast
    from Tick t r r' same show ?thesis by simp
  next
    case (Deliver msg)
    show ?thesis
    proof (cases msg)
      case (PoseMsg p)
      have "traffic_lights (pose_cb p s) = Some tls" "pose_ok (pose_cb p s)"
        using Cons.prems(1) by (simp_all add: pose_cb_def pose_ok_def)
      from Cons.IH [OF this rest, of l] Deliver PoseMsg show ?thesis
        by (simp add: deliver_def)
    next
      case (PathMsg w)
      have "traffic_lights (path_cb w s) = Some tls" "pose_ok (path_cb w s)"
        using Cons.prems(1,2) by (simp_all add: path_cb_def pose_ok_def)
      from Cons.IH [OF this rest, of l] Deliver PathMsg show ?thesis
        by (simp add: deliver_def)
    next
      case (TrackMsg w)
      with Deliver Cons.prems(3) show ?thesis by simp
    next
      case (SignalMsg ls)
      with Deliver Cons.prems(3) show ?thesis by simp
    qed
  qed
qed

text \<open>
  The signal step is guarded by the presence of the data only, not by a flag. Once a
  signal message with at least one light (states 0 .. 3) has been delivered, every later
  tick of any schedule of ticks, pose deliveries and path deliveries succeeds, reads the
  same stored snapshot, touches the signal artist and draws the canvas, so
  \<^verbatim>\<open>update_chart\<close> was True at the test. The style it uses is that of the
  first stored light.
\<close>

lemma signal_step_runs_every_tick:
  assumes "lights \<noteq> []" and "list_all (\<lambda>t. valid_state (tl_state t)) lights"
    and "pose_ok s" and "list_all signal_free acts"
  shows "\<exists>s' l' css m c.
           run_loop acts (traffic_lights_cb lights s) l = Inr (s', l', css)
           \<and> length css = count_list acts Tick
           \<and> traffic_lights s' = Some (map light_triple lights)
           \<and> tl_marker_at (tl_state (hd lights)) = Inr m \<and> first_char m = Inr c
           \<and> list_all (\<lambda>cs. CanvasDraw \<in> set cs
                  \<and> (Plot TlDots (map tl_pos_x lights) (map tl_pos_y lights) m \<in> set cs
                      \<or> SetMarkerFaceColor TlDots c \<in> set cs)) css"
proof -
  let ?tls = "map light_triple lights"
  let ?s = "traffic_lights_cb lights s"
  have ne: "?tls \<noteq> []"
    using assms(1) by simp
  have valid: "list_all (\<lambda>t. valid_state (snd (snd t))) ?tls"
    using assms(2) by (simp add: list_all_iff light_triple_def)
  have st: "traffic_lights ?s = Some ?tls"
    by (rule cb_lights)
  have ok: "pose_ok ?s"
    using assms(3) by (simp add: pose_ok_def traffic_lights_cb_def)
  have hd_eq: "snd (snd (hd ?tls)) = tl_state (hd lights)"
    using assms(1) by (simp add: hd_map light_triple_def)
  have "valid_state (tl_state (hd lights))"
    using assms(1,2) by (cases lights) simp_all
  then have m: "tl_marker_at (tl_state (hd lights)) = Inr (tl_marker ! nat (tl_state (hd lights)))"
    by (simp add: tl_marker_at_def valid_state_def)
  obtain c where c: "first_char (tl_marker ! nat (tl_state (hd lights))) = Inr c"
    using marker_first_char [OF \<open>valid_state (tl_state (hd lights))\<close>] by blast
  have xs: "map fst ?tls = map tl_pos_x lights"
    by (simp add: light_triple_def)
  have ys: "map (\<lambda>t. fst (snd t)) ?tls = map tl_pos_y lights"
    by (simp add: light_triple_def)
  from run_with_signals [OF ne valid, of "tl_marker ! nat (tl_state (hd lights))" c ?s acts l]
       m c hd_eq st ok assms(4)
  show ?thesis
    unfolding xs ys by auto
qed


text \<open>
  Claim C6: the code fails it on a snapshot whose lights differ in state. Two lights, in
  state 0 and in state 2, are written once. Every later tick does re-read the snapshot
  and draw the canvas, but it does not render the markers with the stored states: the
  first tick plots both markers in the style of state 0, and each following tick gives
  both markers the face colour of state 0 and the edge colour of state 2. The per-light
  styles of line 141 are computed on every tick; only the first one or two are used.
\<close>

theorem differing_states_drawn_in_first_colour:
  "tick_calls (run_loop
      [Deliver (TrackMsg [\<lparr> wp_x = 0, wp_y = 0 \<rparr>]),
       Deliver (SignalMsg [\<lparr> tl_pos_x = 0, tl_pos_y = 0, tl_state = 0 \<rparr>,
                           \<lparr> tl_pos_x = 1, tl_pos_y = 1, tl_state = 2 \<rparr>]),
       Tick, Tick, Tick] init_chart loop_locals)
     = Inr [[Plot TlDots [0, 1] [0, 1] ''ro'', CanvasDraw, Pause, RateSleep],
            [SetMarkerFaceColor TlDots CHR ''r'', SetMarkerEdgeColor TlDots CHR ''g'',
             CanvasDraw, Pause, RateSleep],
            [SetMarkerFaceColor TlDots CHR ''r'', SetMarkerEdgeColor TlDots CHR ''g'',
             CanvasDraw, Pause, RateSleep]]"
  by (simp add: tick_calls_def tick_def tick_updates_def redraw_def update_pose_def
        update_path_def update_tl_def get_traffic_lights_def tl_marker_at_def tl_marker_def
        cycle_next_def first_char_def pose_updated_def path_updated_def
        deliver_def waypoints_cb_def traffic_lights_cb_def init_chart_def loop_locals_def)

text \<open>
  Claim C7: the code fails it on an empty snapshot. The guard of line 135 tests for None
  only; after a signal message with no lights the stored list is empty, the step runs,
  and \<^verbatim>\<open>marker.next()\<close> on the cycle of the empty list raises StopIteration, which
  ends the loop.
\<close>

theorem empty_snapshot_stops_tick:
  "tick_calls (run_loop [Deliver (TrackMsg [\<lparr> wp_x = 0, wp_y = 0 \<rparr>]), Deliver (SignalMsg []), Tick]
                 init_chart loop_locals)
     = Inl StopIteration"
  by (simp add: tick_calls_def tick_def tick_updates_def update_pose_def update_path_def
        update_tl_def get_traffic_lights_def cycle_next_def pose_updated_def path_updated_def
        deliver_def waypoints_cb_def traffic_lights_cb_def init_chart_def loop_locals_def)

text \<open>
  Claim C9: the code fails it. Two lights with states 0 and 2 are plotted by the first
  tick; then a snapshot with new positions and the states 2 and 0 arrives. The second
  tick recomputes the coordinate lists and one style per light (lines 137-141) but applies
  none of it per marker: it makes no call that moves the markers to (7, 7) and (8, 8),
  where the pose and path steps call \<^verbatim>\<open>set_xdata\<close> and
  \<^verbatim>\<open>set_ydata\<close>, and it sets one face colour, green, for the whole artist
  although the second light is in state 0, and takes the edge colour from the other light.
\<close>

theorem markers_not_restyled_per_light:
  "tick_calls (run_loop
      [Deliver (TrackMsg [\<lparr> wp_x = 0, wp_y = 0 \<rparr>]),
       Deliver (SignalMsg [\<lparr> tl_pos_x = 0, tl_pos_y = 0, tl_state = 0 \<rparr>,
                           \<lparr> tl_pos_x = 1, tl_pos_y = 1, tl_state = 2 \<rparr>]),
       Tick,
       Deliver (SignalMsg [\<lparr> tl_pos_x = 7, tl_pos_y = 7, tl_state = 2 \<rparr>,
                           \<lparr> tl_pos_x = 8, tl_pos_y = 8, tl_state = 0 \<rparr>]),
       Tick] init_chart loop_locals)
     = Inr [[Plot TlDots [0, 1] [0, 1] ''ro'', CanvasDraw, Pause, RateSleep],
            [SetMarkerFaceColor TlDots CHR ''g'', SetMarkerEdgeColor TlDots CHR ''r'',
             CanvasDraw, Pause, RateSleep]]"
  by (simp add: tick_calls_def tick_def tick_updates_def redraw_def update_pose_def
        update_path_def update_tl_def get_traffic_lights_def tl_marker_at_def tl_marker_def
        cycle_next_def first_char_def pose_updated_def path_updated_def
        deliver_def waypoints_cb_def traffic_lights_cb_def init_chart_def loop_locals_def)

end
